theory Spec2Isabelle
  imports Main "HOL-Library.Word"
begin

section \<open>The Hash type and the field primitives (types/hash.go)\<close>

subsection \<open>Go values used by the package\<close>

type_synonym byte = "8 word"

text \<open>
  A Go byte slice is a list of bytes. A Go big integer is an unbounded integer.
  A Go string is a sequence of bytes; \<open>char\<close> is a byte in HOL.
\<close>

text \<open>The built-in \<open>copy(dst, src)\<close>: it overwrites the first
  \<open>min (len dst) (len src)\<close> cells of \<open>dst\<close> and keeps the others.\<close>

definition go_copy :: "'a list \<Rightarrow> 'a list \<Rightarrow> 'a list" where
  "go_copy dst src =
     take (min (length dst) (length src)) src @ drop (min (length dst) (length src)) dst"

text \<open>\<open>(*big.Int).SetBytes\<close>: the bytes are a big-endian unsigned integer.\<close>

definition SetBytes :: "byte list \<Rightarrow> int" where
  "SetBytes bs = foldl (\<lambda>acc b. acc * 256 + uint b) 0 bs"

text \<open>\<open>(*big.Int).Bytes\<close>: the absolute value as a big-endian byte slice with no
  leading zero byte (the empty slice for 0). \<open>le_bytes\<close> lists the base-256 digits of a
  natural number, least significant first.\<close>

function le_bytes :: "nat \<Rightarrow> byte list" where
  "le_bytes n = (if n = 0 then [] else word_of_nat (n mod 256) # le_bytes (n div 256))"
  by pat_completeness auto
termination
  by (relation "measure (\<lambda>n. n)") auto

declare le_bytes.simps [simp del]

definition Bytes_big :: "int \<Rightarrow> byte list" where
  "Bytes_big x = rev (le_bytes (nat \<bar>x\<bar>))"

text \<open>\<open>(*big.Int).String\<close>: the decimal digits, with a leading minus sign for a
  negative number.\<close>

definition digit_char :: "nat \<Rightarrow> char" where
  "digit_char d = char_of (48 + d)"

function nat_dec :: "nat \<Rightarrow> string" where
  "nat_dec n = (if n < 10 then [digit_char n] else nat_dec (n div 10) @ [digit_char (n mod 10)])"
  by pat_completeness auto
termination
  by (relation "measure (\<lambda>n. n)") auto

declare nat_dec.simps [simp del]

definition String_big :: "int \<Rightarrow> string" where
  "String_big x = (if x < 0 then CHR ''-'' # nat_dec (nat (- x)) else nat_dec (nat x))"

text \<open>\<open>(*big.Int).SetString(s, 10)\<close>: an optional sign \<open>+\<close> or \<open>-\<close>, then one
  or more decimal digits, then the end of the string; anything else fails
  (\<open>ok = false\<close>).\<close>

definition is_digit :: "char \<Rightarrow> bool" where
  "is_digit c = (48 \<le> (of_char c :: nat) \<and> (of_char c :: nat) \<le> 57)"

definition digit_val :: "char \<Rightarrow> nat" where
  "digit_val c = of_char c - 48"

definition scan_digits :: "string \<Rightarrow> nat option" where
  "scan_digits s =
     (if s \<noteq> [] \<and> list_all is_digit s
      then Some (foldl (\<lambda>acc c. acc * 10 + digit_val c) 0 s) else None)"

definition SetString10 :: "string \<Rightarrow> int option" where
  "SetString10 s =
     (case s of
        [] \<Rightarrow> None
      | c # cs \<Rightarrow>
          if c = CHR ''-'' then map_option (\<lambda>n. - int n) (scan_digits cs)
          else if c = CHR ''+'' then map_option int (scan_digits cs)
          else map_option int (scan_digits s))"

subsection \<open>The package state: the modulus and the hash hook\<close>

text \<open>\<open>init\<close> parses the decimal string of the modulus; the parse succeeds, so
  \<open>init\<close> does not panic and \<open>Q\<close> is this number.\<close>

definition qString :: string where
  "qString = ''21888242871839275222246405745257275088548364400416034343698204186575808495617''"

definition Q :: int where
  "Q = 21888242871839275222246405745257275088548364400416034343698204186575808495617"

datatype error =
    hashNotInitErr
  | BadLength nat
  | NotInField
  | CannotParse
  | ErrEntryIndexAlreadyExists
  | ErrKeyNotFound
  | ErrReachedMaxLevel
  | ErrNodeNotFound

type_synonym hash_fn = "int list \<Rightarrow> int \<times> error option"

definition dummyHash :: hash_fn where
  "dummyHash xs = (0, Some hashNotInitErr)"

text \<open>The two package variables \<open>hashScheme\<close> and \<open>setHashScheme\<close> (a
  \<open>sync.Once\<close>, whose state is whether it has run).\<close>

record pkg_state =
  hashScheme :: hash_fn
  setHashScheme_done :: bool

definition pkg_init :: pkg_state where
  "pkg_init = \<lparr> hashScheme = dummyHash, setHashScheme_done = False \<rparr>"

definition InitHashScheme :: "hash_fn \<Rightarrow> pkg_state \<Rightarrow> pkg_state" where
  "InitHashScheme f s =
     (if setHashScheme_done s then s
      else s\<lparr> hashScheme := f, setHashScheme_done := True \<rparr>)"

definition CheckBigIntInField :: "int \<Rightarrow> bool" where
  "CheckBigIntInField a = (a < Q)"

subsection \<open>Hash\<close>

definition numCharPrint :: nat where
  "numCharPrint = 8"

definition HashByteLen :: nat where
  "HashByteLen = 32"

text \<open>A \<open>Hash\<close> is an array of \<open>HashByteLen\<close> bytes: a byte list of that length.\<close>

type_synonym Hash = "byte list"

definition is_Hash :: "Hash \<Rightarrow> bool" where
  "is_Hash h = (length h = HashByteLen)"

definition HashZero :: Hash where
  "HashZero = replicate HashByteLen 0"

text \<open>Modelled from the spec: \<open>ReverseByteOrder\<close> (types/util.go, not among the
  sources) returns a new slice holding the bytes in reverse order ("Conversion to a
  big-endian byte string reverses the bytes").\<close>

definition ReverseByteOrder :: "byte list \<Rightarrow> byte list" where
  "ReverseByteOrder b = rev b"

definition BigInt :: "Hash \<Rightarrow> int" where
  "BigInt h = SetBytes (ReverseByteOrder h)"

definition MarshalText :: "Hash \<Rightarrow> string \<times> error option" where
  "MarshalText h = (String_big (BigInt h), None)"

definition String_Hash :: "Hash \<Rightarrow> string" where
  "String_Hash h =
     (let s = String_big (BigInt h)
      in if length s < numCharPrint then s else take numCharPrint s @ ''...'')"

definition Bytes :: "Hash \<Rightarrow> byte list" where
  "Bytes h = (let b = go_copy (replicate HashByteLen 0) h in ReverseByteOrder b)"

definition NewBigIntFromHashBytes :: "byte list \<Rightarrow> error + int" where
  "NewBigIntFromHashBytes b =
     (if length b \<noteq> HashByteLen then Inl (BadLength (length b))
      else let bi = SetBytes b
           in if \<not> CheckBigIntInField bi then Inl NotInField else Inr bi)"

definition NewHashFromBigInt :: "int \<Rightarrow> Hash" where
  "NewHashFromBigInt b = go_copy (replicate HashByteLen 0) (ReverseByteOrder (Bytes_big b))"

definition NewHashFromBytes :: "byte list \<Rightarrow> Hash" where
  "NewHashFromBytes b = go_copy (replicate HashByteLen 0) (ReverseByteOrder b)"

definition NewHashFromCheckedBytes :: "byte list \<Rightarrow> error + Hash" where
  "NewHashFromCheckedBytes b =
     (if length b \<noteq> HashByteLen then Inl (BadLength (length b))
      else Inr (NewHashFromBytes b))"

text \<open>\<open>NewHashFromString\<close> returns a pointer and an error: \<open>(nil, err)\<close> when the
  string does not parse, \<open>(&hash, nil)\<close> otherwise. The pointer is \<open>None\<close> for nil.\<close>

definition NewHashFromString :: "string \<Rightarrow> Hash option \<times> error option" where
  "NewHashFromString s =
     (case SetString10 s of
        None \<Rightarrow> (None, Some CannotParse)
      | Some bi \<Rightarrow> (Some (NewHashFromBigInt bi), None))"

text \<open>A call either returns or panics. Slicing a nil array pointer (\<open>ha[:]\<close> with
  \<open>ha = nil\<close>) is a nil pointer dereference, a run-time panic.\<close>

datatype 'a outcome = Returns 'a | Panics_nil_dereference

text \<open>\<open>UnmarshalText\<close> has a pointer receiver: it takes the receiver's array and
  returns it updated, with the error.\<close>

definition UnmarshalText :: "Hash \<Rightarrow> string \<Rightarrow> (Hash \<times> error option) outcome" where
  "UnmarshalText h b =
     (case NewHashFromString b of
        (None, err) \<Rightarrow> Panics_nil_dereference
      | (Some ha, err) \<Rightarrow> Returns (go_copy h ha, err))"

text \<open>The value of a little-endian byte list, used to state what \<open>BigInt\<close>
  computes.\<close>

fun le_val :: "byte list \<Rightarrow> int" where
  "le_val [] = 0"
| "le_val (b # bs) = uint b + 256 * le_val bs"

section \<open>Properties of the field primitives\<close>

lemma Q_parses: "SetString10 qString = Some Q"
  by (simp add: SetString10_def qString_def Q_def scan_digits_def is_digit_def digit_val_def)

lemma SetBytes_snoc: "SetBytes (bs @ [b]) = SetBytes bs * 256 + uint b"
  by (simp add: SetBytes_def)

lemma SetBytes_rev: "SetBytes (rev h) = le_val h"
proof (induction h)
  case Nil show ?case by (simp add: SetBytes_def)
next
  case (Cons b bs)
  then show ?case by (simp add: SetBytes_snoc)
qed

lemma BigInt_le_val: "BigInt h = le_val h"
  by (simp add: BigInt_def ReverseByteOrder_def SetBytes_rev)

lemma le_val_nonneg: "0 \<le> le_val h"
  by (induction h) auto

lemma le_val_bound: "le_val h < 256 ^ length h"
proof (induction h)
  case Nil show ?case by simp
next
  case (Cons b bs)
  have "uint b < 256" using uint_bounded [of b] by simp
  moreover have "le_val bs + 1 \<le> 256 ^ length bs" using Cons.IH by simp
  ultimately show ?case by simp
qed

lemma le_val_append: "le_val (xs @ ys) = le_val xs + 256 ^ length xs * le_val ys"
  by (induction xs) (auto simp: algebra_simps)

lemma le_val_replicate0: "le_val (replicate n 0) = 0"
  by (induction n) auto

lemma le_val_split:
  "(uint (x::byte) + 256 * a) mod 256 = uint x" "(uint (x::byte) + 256 * a) div 256 = a"
proof -
  have bx: "0 \<le> uint x" "uint x < 256" using uint_bounded [of x] by simp_all
  then show "(uint x + 256 * a) mod 256 = uint x" by simp
  from bx show "(uint x + 256 * a) div 256 = a" by simp
qed

lemma le_val_inj: "length xs = length ys \<Longrightarrow> le_val xs = le_val ys \<Longrightarrow> xs = ys"
proof (induction xs arbitrary: ys)
  case Nil then show ?case by simp
next
  case (Cons x xs)
  then obtain y ys' where ys: "ys = y # ys'" by (cases ys) auto
  from Cons.prems ys have eq: "uint x + 256 * le_val xs = uint y + 256 * le_val ys'" by simp
  have "uint x = uint y" using arg_cong [OF eq, of "\<lambda>v. v mod 256"] by (simp only: le_val_split)
  moreover have "le_val xs = le_val ys'" using arg_cong [OF eq, of "\<lambda>v. v div 256"] by (simp only: le_val_split)
  ultimately show ?case using Cons.IH [of ys'] Cons.prems ys by (simp add: word_uint_eq_iff)
qed

lemma le_val_le_bytes: "le_val (le_bytes n) = int n"
proof (induction n rule: le_bytes.induct)
  case (1 n)
  show ?case
  proof (cases "n = 0")
    case True then show ?thesis by (subst le_bytes.simps) simp
  next
    case False
    have "uint (word_of_nat (n mod 256) :: byte) = int (n mod 256)"
      by (simp add: unsigned_of_nat take_bit_eq_mod)
    with False 1 show ?thesis
      by (subst le_bytes.simps) (simp add: zmod_int zdiv_int)
  qed
qed

lemma mod_split_256:
  fixes u v P :: int
  assumes "0 \<le> u" "u < 256" "0 < P"
  shows "(u + 256 * v) mod (256 * P) = u + 256 * (v mod P)"
proof -
  have "u + 256 * v = (u + 256 * (v mod P)) + (256 * P) * (v div P)"
  proof -
    have "v = P * (v div P) + v mod P" by simp
    then have "256 * v = 256 * (P * (v div P)) + 256 * (v mod P)"
      by (metis distrib_left)
    then show ?thesis by simp
  qed
  then have "(u + 256 * v) mod (256 * P) = (u + 256 * (v mod P)) mod (256 * P)"
    by (metis mod_mult_self2)
  moreover have "0 \<le> v mod P" "v mod P \<le> P - 1" using assms(3) by (simp_all add: pos_mod_bound zle_diff1_eq)
  then have "0 \<le> u + 256 * (v mod P)" "u + 256 * (v mod P) < 256 * P" using assms by linarith+
  ultimately show ?thesis by simp
qed

lemma le_val_take: "le_val (take n xs) = le_val xs mod 256 ^ n"
proof (induction xs arbitrary: n)
  case Nil show ?case by simp
next
  case (Cons x xs)
  show ?case
  proof (cases n)
    case 0 then show ?thesis by simp
  next
    case (Suc m)
    have bx: "0 \<le> uint x" "uint x < 256" using uint_bounded [of x] by simp_all
    have "(uint x + 256 * le_val xs) mod (256 * 256 ^ m) = uint x + 256 * (le_val xs mod 256 ^ m)"
      using bx by (intro mod_split_256) simp_all
    with Suc Cons.IH [of m] show ?thesis by simp
  qed
qed

lemma length_go_copy: "length (go_copy dst src) = length dst"
  by (simp add: go_copy_def)

lemma le_val_go_copy0:
  "le_val (go_copy (replicate n 0) src) = le_val src mod 256 ^ n"
proof -
  have "le_val (go_copy (replicate n 0) src)
        = le_val (take (min n (length src)) src)"
    by (simp add: go_copy_def le_val_append le_val_replicate0)
  also have "\<dots> = le_val (take n src)" by (simp add: min_def)
  finally show ?thesis by (simp add: le_val_take)
qed

lemma digit_char_props:
  assumes "d < 10"
  shows "is_digit (digit_char d)" "digit_val (digit_char d) = d"
  using assms by (simp_all add: is_digit_def digit_val_def digit_char_def)

lemma nat_dec_nonempty: "nat_dec n \<noteq> []"
  by (subst nat_dec.simps) simp

lemma nat_dec_digits: "list_all is_digit (nat_dec n)"
proof (induction n rule: nat_dec.induct)
  case (1 n)
  show ?case
  proof (cases "n < 10")
    case True
    then show ?thesis by (subst nat_dec.simps) (simp add: digit_char_props)
  next
    case False
    with 1 show ?thesis by (subst nat_dec.simps) (simp add: digit_char_props)
  qed
qed

lemma nat_dec_value: "foldl (\<lambda>acc c. acc * 10 + digit_val c) 0 (nat_dec n) = n"
proof (induction n rule: nat_dec.induct)
  case (1 n)
  show ?case
  proof (cases "n < 10")
    case True
    then show ?thesis by (subst nat_dec.simps) (simp add: digit_char_props)
  next
    case False
    with 1 show ?thesis by (subst nat_dec.simps) (simp add: digit_char_props)
  qed
qed

lemma scan_digits_nat_dec: "scan_digits (nat_dec n) = Some n"
  by (simp add: scan_digits_def nat_dec_nonempty nat_dec_digits nat_dec_value)

lemma is_digit_not_sign: "is_digit c \<Longrightarrow> c \<noteq> CHR ''-'' \<and> c \<noteq> CHR ''+''"
  by (auto simp: is_digit_def)

lemma SetString10_nat_dec: "SetString10 (nat_dec n) = Some (int n)"
proof -
  obtain c cs where s: "nat_dec n = c # cs"
    using nat_dec_nonempty [of n] by (cases "nat_dec n") auto
  have "is_digit c" using nat_dec_digits [of n] s by simp
  then have "c \<noteq> CHR ''-''" "c \<noteq> CHR ''+''" using is_digit_not_sign by blast+
  then have "SetString10 (nat_dec n) = map_option int (scan_digits (nat_dec n))"
    by (simp add: SetString10_def s)
  then show ?thesis by (simp add: scan_digits_nat_dec)
qed

lemma SetString10_String_big: "0 \<le> x \<Longrightarrow> SetString10 (String_big x) = Some x"
  by (simp add: String_big_def SetString10_nat_dec)

lemma length_nat_dec_le: "0 < k \<Longrightarrow> length (nat_dec n) \<le> k \<longleftrightarrow> n < 10 ^ k"
proof (induction n arbitrary: k rule: nat_dec.induct)
  case (1 n)
  show ?case
  proof (cases "n < 10")
    case True
    have "(10::nat) ^ 1 \<le> 10 ^ k" using 1(2) by (intro power_increasing) simp_all
    with True have "n < 10 ^ k" by simp
    moreover have "length (nat_dec n) = 1" using True by (subst nat_dec.simps) simp
    ultimately show ?thesis using 1(2) by simp
  next
    case False
    have len: "length (nat_dec n) = Suc (length (nat_dec (n div 10)))"
      using False by (subst nat_dec.simps) simp
    show ?thesis
    proof (cases k)
      case 0 with 1(2) show ?thesis by simp
    next
      case (Suc j)
      show ?thesis
      proof (cases "j = 0")
        case True
        with Suc False len nat_dec_nonempty [of "n div 10"] show ?thesis
          by (cases "nat_dec (n div 10)") auto
      next
        case jpos: False
        have "length (nat_dec (n div 10)) \<le> j \<longleftrightarrow> n div 10 < 10 ^ j"
          using 1(1) [OF False, of j] jpos by simp
        moreover have "n div 10 < 10 ^ j \<longleftrightarrow> n < 10 ^ Suc j"
          by (simp add: less_mult_imp_div_less div_less_iff_less_mult mult.commute)
        ultimately show ?thesis using Suc len by simp
      qed
    qed
  qed
qed

lemma BigInt_nonneg: "0 \<le> BigInt h"
  by (simp add: BigInt_le_val le_val_nonneg)

lemma BigInt_HashZero: "BigInt HashZero = 0"
  by (simp add: BigInt_le_val HashZero_def le_val_replicate0)

lemma go_copy_same_length: "length dst = length src \<Longrightarrow> go_copy dst src = src"
  by (simp add: go_copy_def)

lemma is_Hash_NewHashFromBigInt: "is_Hash (NewHashFromBigInt b)"
  by (simp add: is_Hash_def NewHashFromBigInt_def length_go_copy)

lemma BigInt_NewHashFromBigInt: "BigInt (NewHashFromBigInt b) = \<bar>b\<bar> mod 2 ^ 256"
proof -
  have "BigInt (NewHashFromBigInt b) = le_val (le_bytes (nat \<bar>b\<bar>)) mod 256 ^ 32"
    by (simp add: BigInt_le_val NewHashFromBigInt_def ReverseByteOrder_def Bytes_big_def
        le_val_go_copy0 HashByteLen_def)
  then show ?thesis by (simp add: le_val_le_bytes)
qed

lemma BigInt_inj: "is_Hash a \<Longrightarrow> is_Hash b \<Longrightarrow> BigInt a = BigInt b \<Longrightarrow> a = b"
  by (simp add: is_Hash_def BigInt_le_val le_val_inj)

lemma BigInt_bound: "is_Hash h \<Longrightarrow> BigInt h < 2 ^ 256"
  using le_val_bound [of h] by (simp add: is_Hash_def BigInt_le_val HashByteLen_def)

lemma NewHashFromBigInt_BigInt: "is_Hash h \<Longrightarrow> NewHashFromBigInt (BigInt h) = h"
proof -
  assume h: "is_Hash h"
  have "BigInt (NewHashFromBigInt (BigInt h)) = BigInt h"
    using BigInt_bound [OF h] BigInt_nonneg [of h] by (simp add: BigInt_NewHashFromBigInt)
  then show ?thesis using h is_Hash_NewHashFromBigInt BigInt_inj by blast
qed

section \<open>The claims about types/hash.go\<close>

lemma InitHashScheme_done: "setHashScheme_done (InitHashScheme g s)"
  by (simp add: InitHashScheme_def)

lemma InitHashScheme_ignored:
  "setHashScheme_done s \<Longrightarrow> InitHashScheme g s = s"
  by (simp add: InitHashScheme_def)

lemma fold_InitHashScheme_ignored:
  "setHashScheme_done s \<Longrightarrow> fold InitHashScheme gs s = s"
  by (induction gs) (simp_all add: InitHashScheme_ignored)

text \<open>Claim C3. The hash hook is installed at most once: before any call of
  \<open>InitHashScheme\<close> the hook answers every input with the error "hash scheme is
  not setup yet"; the first call \<open>InitHashScheme f\<close> makes \<open>f\<close> the hook; every
  later call, and every sequence \<open>gs\<close> of later calls, leaves \<open>f\<close> installed.\<close>
theorem hash_hook_installed_once:
  "hashScheme pkg_init xs = (0, Some hashNotInitErr)
   \<and> hashScheme (InitHashScheme f pkg_init) = f
   \<and> hashScheme (InitHashScheme g (InitHashScheme f pkg_init)) = f
   \<and> hashScheme (fold InitHashScheme gs (InitHashScheme f pkg_init)) = f"
proof -
  have first: "hashScheme (InitHashScheme f pkg_init) = f"
    by (simp add: InitHashScheme_def pkg_init_def)
  have later: "fold InitHashScheme gs (InitHashScheme f pkg_init) = InitHashScheme f pkg_init"
    by (rule fold_InitHashScheme_ignored) (rule InitHashScheme_done)
  have again: "InitHashScheme g (InitHashScheme f pkg_init) = InitHashScheme f pkg_init"
    by (rule InitHashScheme_ignored) (rule InitHashScheme_done)
  show ?thesis
    by (simp add: first later again) (simp add: pkg_init_def dummyHash_def)
qed

lemma Bytes_rev: "is_Hash h \<Longrightarrow> Bytes h = rev h"
  by (simp add: Bytes_def is_Hash_def ReverseByteOrder_def go_copy_same_length)

lemma NewHashFromBytes_rev: "length b = HashByteLen \<Longrightarrow> NewHashFromBytes b = rev b"
  by (simp add: NewHashFromBytes_def ReverseByteOrder_def go_copy_same_length)

text \<open>Claim C4. For a Hash \<open>h\<close>, \<open>h.Bytes()\<close> has 32 bytes and is the
  reversal of the array, and \<open>NewHashFromCheckedBytes\<close> of it succeeds with \<open>h\<close>;
  for a 32-byte input \<open>b\<close>, \<open>NewHashFromBytes(b).Bytes()\<close> is \<open>b\<close>.\<close>
theorem Hash_Bytes_round_trip:
  assumes "is_Hash h" and "length b = HashByteLen"
  shows "length (Bytes h) = 32 \<and> Bytes h = rev h
         \<and> NewHashFromCheckedBytes (Bytes h) = Inr h
         \<and> Bytes (NewHashFromBytes b) = b"
proof -
  have len: "length h = HashByteLen" using assms(1) by (simp add: is_Hash_def)
  have b: "Bytes h = rev h" using assms(1) by (rule Bytes_rev)
  have "NewHashFromCheckedBytes (rev h) = Inr h"
    using len by (simp add: NewHashFromCheckedBytes_def NewHashFromBytes_rev)
  moreover have "Bytes (NewHashFromBytes b) = b"
    using assms(2) by (simp add: NewHashFromBytes_rev Bytes_rev is_Hash_def)
  ultimately show ?thesis using b len by (simp add: HashByteLen_def)
qed

theorem Hash_Bytes_round_trip_witness:
  "is_Hash (map word_of_nat [0..<32]) \<and> length (map word_of_nat [32..<64] :: byte list) = HashByteLen
   \<and> Bytes (map word_of_nat [0..<32]) = rev (map word_of_nat [0..<32])
   \<and> NewHashFromCheckedBytes (Bytes (map word_of_nat [0..<32])) = Inr (map word_of_nat [0..<32])
   \<and> Bytes (NewHashFromBytes (map word_of_nat [32..<64])) = map word_of_nat [32..<64]"
proof -
  have h: "is_Hash (map word_of_nat [0..<32])" by (simp add: is_Hash_def HashByteLen_def)
  have b: "length (map word_of_nat [32..<64] :: byte list) = HashByteLen" by (simp add: HashByteLen_def)
  show ?thesis using h b Hash_Bytes_round_trip [OF h b] by blast
qed

text \<open>Claim C5 says that \<open>CheckBigIntInField a\<close> holds exactly when
  \<open>0 \<le> a < Q\<close>. The function compares with \<open>Q\<close> only: at \<open>a = -1\<close> it answers
  true although \<open>-1\<close> is not in the range of the field.\<close>
theorem CheckBigIntInField_negative:
  "CheckBigIntInField (- 1) \<and> \<not> (0 \<le> (- 1 :: int) \<and> (- 1 :: int) < Q)"
  by (simp add: CheckBigIntInField_def Q_def)

lemma CheckBigIntInField_nonneg:
  "0 \<le> a \<Longrightarrow> CheckBigIntInField a \<longleftrightarrow> 0 \<le> a \<and> a < Q"
  by (simp add: CheckBigIntInField_def)

lemma digit_char_0: "digit_char 0 = CHR ''0''"
  by code_simp

lemma nat_dec_0: "nat_dec 0 = ''0''"
  by (subst nat_dec.simps) (simp add: digit_char_0)

text \<open>Claim C7. \<open>h.String()\<close> is the whole decimal form of \<open>h.BigInt()\<close>
  when that has fewer than 8 characters (that is, when the value is below \<open>10^7\<close>), and
  otherwise its first 8 characters followed by three dots; \<open>HashZero\<close> prints as
  \<open>0\<close>.\<close>
theorem Hash_String_abbreviates:
  "String_Hash h =
     (if length (String_big (BigInt h)) < 8 then String_big (BigInt h)
      else take 8 (String_big (BigInt h)) @ ''...'')
   \<and> (length (String_big (BigInt h)) < 8 \<longleftrightarrow> BigInt h < 10000000)
   \<and> String_Hash HashZero = ''0''"
proof -
  have a: "String_Hash h =
     (if length (String_big (BigInt h)) < 8 then String_big (BigInt h)
      else take 8 (String_big (BigInt h)) @ ''...'')"
    by (simp add: String_Hash_def numCharPrint_def Let_def)
  have "length (nat_dec (nat (BigInt h))) \<le> 7 \<longleftrightarrow> nat (BigInt h) < 10 ^ 7"
    by (rule length_nat_dec_le) simp
  then have b: "length (String_big (BigInt h)) < 8 \<longleftrightarrow> BigInt h < 10000000"
    using BigInt_nonneg [of h] by (simp add: String_big_def) linarith
  have c: "String_Hash HashZero = ''0''"
    by (simp add: String_Hash_def BigInt_HashZero String_big_def nat_dec_0 numCharPrint_def)
  from a b c show ?thesis by blast
qed

text \<open>Claim C8 says that \<open>UnmarshalText\<close> returns an error on a text that does
  not parse. On such a text \<open>NewHashFromString\<close> returns the nil pointer, and
  \<open>UnmarshalText\<close> slices it before it looks at the error: the call panics.\<close>
theorem UnmarshalText_panics_on_bad_text:
  "UnmarshalText HashZero ''abc'' = Panics_nil_dereference
   \<and> UnmarshalText HashZero [] = Panics_nil_dereference"
  by (simp add: UnmarshalText_def NewHashFromString_def SetString10_def scan_digits_def is_digit_def)

text \<open>Claim C9. For a non-negative \<open>b\<close>, \<open>NewHashFromBigInt(b).BigInt()\<close> is
  \<open>b mod 2^256\<close>: the bytes above the 32nd are dropped, and nothing compares \<open>b\<close>
  with \<open>Q\<close>.\<close>
theorem NewHashFromBigInt_truncates:
  "0 \<le> b \<Longrightarrow> is_Hash (NewHashFromBigInt b) \<and> BigInt (NewHashFromBigInt b) = b mod 2 ^ 256"
  by (simp add: is_Hash_NewHashFromBigInt BigInt_NewHashFromBigInt)

theorem NewHashFromBigInt_truncates_witness:
  "(0::int) \<le> 2 ^ 256 + 5 \<and> BigInt (NewHashFromBigInt (2 ^ 256 + 5)) = 5
   \<and> 0 \<le> Q \<and> BigInt (NewHashFromBigInt Q) = Q \<and> \<not> CheckBigIntInField (BigInt (NewHashFromBigInt Q))"
proof -
  have a: "(0::int) \<le> 2 ^ 256 + 5" by simp
  have q: "0 \<le> Q" by (simp add: Q_def)
  have "BigInt (NewHashFromBigInt (2 ^ 256 + 5)) = (2 ^ 256 + 5) mod 2 ^ 256"
    using NewHashFromBigInt_truncates [OF a] by blast
  then have r1: "BigInt (NewHashFromBigInt (2 ^ 256 + 5)) = 5" by simp
  have "BigInt (NewHashFromBigInt Q) = Q mod 2 ^ 256"
    using NewHashFromBigInt_truncates [OF q] by blast
  then have r2: "BigInt (NewHashFromBigInt Q) = Q" by (simp add: Q_def)
  show ?thesis using a q r1 r2 by (simp add: CheckBigIntInField_def)
qed

text \<open>Claim C10. For every Hash \<open>h\<close>, \<open>MarshalText\<close> returns no error and
  \<open>UnmarshalText\<close> of its output, on any receiver, returns no error and leaves the
  receiver equal to \<open>h\<close>, whether or not the value of \<open>h\<close> is below \<open>Q\<close>.\<close>
theorem MarshalText_UnmarshalText_round_trip:
  assumes "is_Hash h" and "is_Hash r"
  shows "snd (MarshalText h) = None
         \<and> UnmarshalText r (fst (MarshalText h)) = Returns (h, None)"
proof -
  have "NewHashFromString (String_big (BigInt h)) = (Some h, None)"
    using assms(1) by (simp add: NewHashFromString_def SetString10_String_big BigInt_nonneg
        NewHashFromBigInt_BigInt)
  moreover have "go_copy r h = h"
    using assms by (simp add: go_copy_same_length is_Hash_def)
  ultimately show ?thesis by (simp add: MarshalText_def UnmarshalText_def)
qed

lemma le_val_replicate255: "le_val (replicate n 255) = 256 ^ n - 1"
  by (induction n) auto

theorem MarshalText_UnmarshalText_round_trip_witness:
  "is_Hash (replicate 32 255) \<and> is_Hash HashZero
   \<and> \<not> CheckBigIntInField (BigInt (replicate 32 255))
   \<and> UnmarshalText HashZero (fst (MarshalText (replicate 32 255))) = Returns (replicate 32 255, None)"
proof -
  have h: "is_Hash (replicate 32 255)" by (simp add: is_Hash_def HashByteLen_def)
  have z: "is_Hash HashZero" by (simp add: is_Hash_def HashZero_def)
  have big: "\<not> CheckBigIntInField (BigInt (replicate 32 255))"
    by (simp add: BigInt_le_val le_val_replicate255 CheckBigIntInField_def Q_def)
  show ?thesis using h z big MarshalText_UnmarshalText_round_trip [OF h z] by simp
qed

end
